theory Spec2Isabelle
  imports Main "HOL-Library.Word"
begin

section \<open>Values and frames\<close>

text \<open>
  The sniffer keeps every packet as a Python dictionary. Four kinds of values occur in
  the fields whose type is not fixed: text, integers, byte strings (scapy gives the
  addresses of an ARP frame as \<^verbatim>\<open>bytes\<close> when the frame is not Ethernet/IPv4
  ARP), and the flag object that scapy hands out for \<^verbatim>\<open>packet[TCP].flags\<close>
  (a \<^verbatim>\<open>FlagValue\<close>, which is neither a \<^verbatim>\<open>str\<close> nor an
  \<^verbatim>\<open>int\<close>).
\<close>

datatype pyval = PyStr string | PyInt int | PyBytes "8 word list" | PyFlagValue int

text \<open>
  A captured frame is a scapy packet. The analyser only asks which layers are present
  (\<^verbatim>\<open>IP in packet\<close>, \<^verbatim>\<open>packet.haslayer(Raw)\<close>) and reads a few fields of
  each, so a frame is the collection of its optional layers, its length and its summary.
\<close>

datatype ip_layer = IP (src: string) (dst: string) (proto: int)
datatype tcp_layer = TCP (sport: int) (dport: int) (tcp_flags: int)
datatype udp_layer = UDP (sport: int) (dport: int)
datatype icmp_layer = ICMP (type_field: int) (code_field: int)
datatype arp_layer = ARP (psrc: pyval) (pdst: pyval) (hwsrc: pyval) (hwdst: pyval)
datatype ether_layer = Ether (src: string) (dst: string)

record frame =
  frame_len :: nat
  frame_summary :: string
  ip :: "ip_layer option"
  tcp :: "tcp_layer option"
  udp :: "udp_layer option"
  icmp :: "icmp_layer option"
  arp :: "arp_layer option"
  ether :: "ether_layer option"
  raw :: "8 word list option"

record packet_info =
  timestamp :: string
  length_field :: nat
  protocol :: pyval
  src_ip :: pyval
  dst_ip :: pyval
  src_port :: "int option"
  dst_port :: "int option"
  flags :: "pyval option"
  payload :: "string option"
  summary :: string
  icmp_type :: "int option"
  icmp_code :: "int option"
  src_mac :: "pyval option"
  dst_mac :: "pyval option"

section \<open>The capture session\<close>

text \<open>
  The fields of \<^verbatim>\<open>NetworkSniffer.__init__\<close>. The queue is Python's unbounded
  \<^verbatim>\<open>queue.Queue\<close>, kept as the list of items not yet taken. A thread is
  identified by the interface and filter its closure was created with.
\<close>

type_synonym thread = "string option \<times> string"

record sniffer =
  packets :: "packet_info list"
  packet_queue :: "packet_info list"
  is_capturing :: bool
  capture_thread :: "thread option"
  packet_count :: nat
  interface :: "string option"
  filter_str :: string

definition init :: sniffer where
  "init = \<lparr>packets = [], packet_queue = [], is_capturing = False, capture_thread = None,
     packet_count = 0, interface = None, filter_str = ''''\<rparr>"

definition demo_init :: sniffer where
  "demo_init = \<lparr>packets = [], packet_queue = [], is_capturing = False, capture_thread = None,
     packet_count = 0, interface = Some ''Demo Interface'', filter_str = ''''\<rparr>"

section \<open>Frame analysis\<close>

definition hex_digit :: "nat \<Rightarrow> char" where
  "hex_digit n = ''0123456789abcdef'' ! (n mod 16)"

definition hexlify :: "8 word list \<Rightarrow> string" where
  "hexlify bs = concat (map (\<lambda>b. [hex_digit (unat b div 16), hex_digit (unat b mod 16)]) bs)"

text \<open>The payload preview both transport branches compute: the first 100 bytes, in hex.\<close>

definition raw_payload :: "frame \<Rightarrow> packet_info \<Rightarrow> packet_info" where
  "raw_payload packet info =
     (case raw packet of
        Some load \<Rightarrow> info\<lparr>payload := Some (hexlify (take 100 load))\<rparr>
      | None \<Rightarrow> info)"

definition analyze_packet :: "string \<Rightarrow> frame \<Rightarrow> packet_info" where
  "analyze_packet now packet =
     (let info0 = \<lparr>timestamp = now, length_field = frame_len packet,
            protocol = PyStr ''Unknown'', src_ip = PyStr ''Unknown'',
            dst_ip = PyStr ''Unknown'', src_port = None, dst_port = None, flags = None, payload = None,
            summary = frame_summary packet, icmp_type = None, icmp_code = None,
            src_mac = None, dst_mac = None\<rparr>;
          info1 =
            (case ip packet of
               Some i \<Rightarrow>
                 (let info = info0\<lparr>src_ip := PyStr (ip_layer.src i),
                        dst_ip := PyStr (ip_layer.dst i), protocol := PyInt (proto i)\<rparr>
                  in case tcp packet of
                       Some t \<Rightarrow>
                         raw_payload packet
                           (info\<lparr>src_port := Some (tcp_layer.sport t),
                              dst_port := Some (tcp_layer.dport t),
                              flags := Some (PyFlagValue (tcp_flags t)),
                              protocol := PyStr ''TCP''\<rparr>)
                     | None \<Rightarrow>
                         (case udp packet of
                            Some u \<Rightarrow>
                              raw_payload packet
                                (info\<lparr>src_port := Some (udp_layer.sport u),
                                   dst_port := Some (udp_layer.dport u),
                                   protocol := PyStr ''UDP''\<rparr>)
                          | None \<Rightarrow>
                              (case icmp packet of
                                 Some c \<Rightarrow>
                                   info\<lparr>protocol := PyStr ''ICMP'',
                                     icmp_type := Some (type_field c),
                                     icmp_code := Some (code_field c)\<rparr>
                               | None \<Rightarrow> info)))
             | None \<Rightarrow>
                 (case arp packet of
                    Some a \<Rightarrow>
                      info0\<lparr>protocol := PyStr ''ARP'', src_ip := psrc a, dst_ip := pdst a,
                        src_mac := Some (hwsrc a), dst_mac := Some (hwdst a)\<rparr>
                  | None \<Rightarrow> info0))
      in case ether packet of
           Some e \<Rightarrow> info1\<lparr>src_mac := Some (PyStr (ether_layer.src e)),
                       dst_mac := Some (PyStr (ether_layer.dst e))\<rparr>
         | None \<Rightarrow> info1)"

section \<open>The packet callback and the bounded history\<close>

text \<open>
  \<^verbatim>\<open>packet_callback\<close> reads the clock inside \<^verbatim>\<open>analyze_packet\<close>; the reading
  is the argument \<open>now\<close>. \<^verbatim>\<open>self.packets.pop(0)\<close> runs only on a list of more
  than 1000 elements, so it never raises and is \<open>tl\<close>.
\<close>

definition packet_callback :: "sniffer \<Rightarrow> string \<Rightarrow> frame \<Rightarrow> sniffer" where
  "packet_callback s now packet =
     (if \<not> is_capturing s then s
      else
        let info = analyze_packet now packet;
            s1 = s\<lparr>packets := packets s @ [info]\<rparr>;
            s2 = s1\<lparr>packet_queue := packet_queue s1 @ [info]\<rparr>;
            s3 = s2\<lparr>packet_count := packet_count s2 + 1\<rparr>
        in if length (packets s3) > 1000 then s3\<lparr>packets := tl (packets s3)\<rparr> else s3)"

text \<open>Frames delivered one after the other, each with the clock reading of its analysis.\<close>

fun deliver :: "sniffer \<Rightarrow> (string \<times> frame) list \<Rightarrow> sniffer" where
  "deliver s [] = s"
| "deliver s ((now, packet) # rest) = deliver (packet_callback s now packet) rest"

section \<open>Session operations\<close>

definition start_capture :: "sniffer \<Rightarrow> string option \<Rightarrow> string \<Rightarrow> bool \<times> sniffer" where
  "start_capture s iface fstr =
     (if is_capturing s then (False, s)
      else (True, s\<lparr>interface := iface, filter_str := fstr, is_capturing := True,
                    packet_count := 0, capture_thread := Some (iface, fstr)\<rparr>))"

definition stop_capture :: "sniffer \<Rightarrow> bool \<times> sniffer" where
  "stop_capture s = (True, s\<lparr>is_capturing := False\<rparr>)"

text \<open>
  Python's \<^verbatim>\<open>xs[start:]\<close>: a negative start counts from the end and is clipped at
  the front, a non-negative one is clipped at the length.
\<close>

definition slice_from :: "'a list \<Rightarrow> int \<Rightarrow> 'a list" where
  "slice_from xs start =
     (let n = int (length xs);
          i = (if start < 0 then max (n + start) 0 else min start n)
      in drop (nat i) xs)"

definition get_recent_packets :: "sniffer \<Rightarrow> int \<Rightarrow> packet_info list" where
  "get_recent_packets s count = (if packets s \<noteq> [] then slice_from (packets s) (- count) else [])"

definition clear_packets :: "sniffer \<Rightarrow> sniffer" where
  "clear_packets s = s\<lparr>packets := [], packet_count := 0\<rparr>"

section \<open>The capture thread\<close>

text \<open>
  What \<^verbatim>\<open>sniff\<close> does in the thread started by \<^verbatim>\<open>start_capture\<close>: it either
  raises (the interface or the filter cannot be opened, or the source breaks later), or it
  hands frames to \<^verbatim>\<open>packet_callback\<close>. The thread body catches every exception
  and prints it; the second component is what it printed.
\<close>

datatype source = Fails_to_open string | Yields "(string \<times> frame) list" "string option"

definition capture_packets :: "source \<Rightarrow> sniffer \<Rightarrow> sniffer \<times> string list" where
  "capture_packets source s =
     (case source of
        Fails_to_open e \<Rightarrow> (s, [''Capture error: '' @ e])
      | Yields frames err \<Rightarrow>
          (deliver s frames,
           (case err of None \<Rightarrow> [] | Some e \<Rightarrow> [''Capture error: '' @ e])))"

section \<open>Statistics\<close>

text \<open>
  A Python dictionary keeps its keys in insertion order, and assigning to a key that is
  already there keeps the key's place: an association list with update in place.
\<close>

fun dict_set :: "('k \<times> 'v) list \<Rightarrow> 'k \<Rightarrow> 'v \<Rightarrow> ('k \<times> 'v) list" where
  "dict_set [] k v = [(k, v)]"
| "dict_set ((k', v') # d) k v = (if k' = k then (k, v) # d else (k', v') # dict_set d k v)"

definition dict_get :: "('k \<times> 'v) list \<Rightarrow> 'k \<Rightarrow> 'v \<Rightarrow> 'v" where
  "dict_get d k dflt = (case map_of d k of Some v \<Rightarrow> v | None \<Rightarrow> dflt)"

text \<open>\<^verbatim>\<open>d[k] = d.get(k, 0) + 1\<close>\<close>

definition bump :: "('k \<times> nat) list \<Rightarrow> 'k \<Rightarrow> ('k \<times> nat) list" where
  "bump d k = dict_set d k (dict_get d k 0 + 1)"

text \<open>\<^verbatim>\<open>dict(items)\<close>: the items are inserted from left to right.\<close>

definition dict_of :: "('k \<times> 'v) list \<Rightarrow> ('k \<times> 'v) list" where
  "dict_of items = fold (\<lambda>(k, v) d. dict_set d k v) items []"

text \<open>
  \<^verbatim>\<open>sorted(items, key=lambda x: x[1], reverse=True)\<close>: Python's sort is stable, and
  with \<^verbatim>\<open>reverse=True\<close> elements of equal key still keep their original order.
\<close>

definition sorted_reverse :: "('k \<times> nat) list \<Rightarrow> ('k \<times> nat) list" where
  "sorted_reverse items = sort_key (\<lambda>x. - int (snd x)) items"

definition top10 :: "('k \<times> nat) list \<Rightarrow> ('k \<times> nat) list" where
  "top10 d = dict_of (take 10 (sorted_reverse d))"

fun stats_loop ::
  "packet_info list \<Rightarrow> (pyval \<times> nat) list \<Rightarrow> (pyval \<times> nat) list \<Rightarrow> (int \<times> nat) list \<Rightarrow>
     (pyval \<times> nat) list \<times> (pyval \<times> nat) list \<times> (int \<times> nat) list" where
  "stats_loop [] protocols ips ports = (protocols, ips, ports)"
| "stats_loop (packet # rest) protocols ips ports =
     (let protocols' = bump protocols (protocol packet);
          ips' = (if src_ip packet \<noteq> PyStr ''Unknown'' then bump ips (src_ip packet) else ips);
          ports' = (case src_port packet of
                      Some p \<Rightarrow> if p \<noteq> 0 then bump ports p else ports
                    | None \<Rightarrow> ports)
      in stats_loop rest protocols' ips' ports')"

datatype stats_value =
    Count nat
  | ProtocolCounts "(pyval \<times> nat) list"
  | AddressCounts "(pyval \<times> nat) list"
  | PortCounts "(int \<times> nat) list"

definition get_packet_stats :: "sniffer \<Rightarrow> (string \<times> stats_value) list" where
  "get_packet_stats s =
     (if packets s = [] then []
      else
        case stats_loop (packets s) [] [] [] of
          (protocols, ips, ports) \<Rightarrow>
            [(''total_packets'', Count (length (packets s))),
             (''protocols'', ProtocolCounts protocols),
             (''top_ips'', AddressCounts (top10 ips)),
             (''top_ports'', PortCounts (top10 ports))])"



section \<open>Export\<close>

text \<open>
  \<^verbatim>\<open>json.dump\<close> encodes dictionaries, lists, strings, numbers and \<^verbatim>\<open>None\<close>,
  and raises \<^verbatim>\<open>TypeError\<close> on any other object, so on a byte string and on a
  flag object. In a packet record the fields that can hold such a value are the protocol,
  the two addresses, the flags and the two link-layer addresses; every other field is
  text, a number or \<^verbatim>\<open>None\<close>. The destination either can be opened and written,
  or \<^verbatim>\<open>open\<close> (or the write) raises \<^verbatim>\<open>OSError\<close>.
\<close>

datatype exn = OSError string | TypeError string

datatype dest = Writable | Unwritable string

datatype file_effect = Untouched | Complete "packet_info list" | Truncated

definition json_value_ok :: "pyval \<Rightarrow> bool" where
  "json_value_ok v =
     (case v of PyStr _ \<Rightarrow> True | PyInt _ \<Rightarrow> True | PyBytes _ \<Rightarrow> False | PyFlagValue _ \<Rightarrow> False)"

definition json_option_ok :: "pyval option \<Rightarrow> bool" where
  "json_option_ok v = (case v of None \<Rightarrow> True | Some w \<Rightarrow> json_value_ok w)"

definition json_record_ok :: "packet_info \<Rightarrow> bool" where
  "json_record_ok p =
     (json_value_ok (protocol p) \<and> json_value_ok (src_ip p) \<and> json_value_ok (dst_ip p) \<and>
      json_option_ok (flags p) \<and> json_option_ok (src_mac p) \<and> json_option_ok (dst_mac p))"

definition json_dump :: "packet_info list \<Rightarrow> exn + packet_info list" where
  "json_dump ps =
     (if list_all json_record_ok ps then Inr ps
      else Inl (TypeError ''Object is not JSON serializable''))"

text \<open>The body of the \<^verbatim>\<open>try\<close>: what it raises, or the document it wrote.\<close>

definition export_body :: "dest \<Rightarrow> sniffer \<Rightarrow> (exn \<times> file_effect) + packet_info list" where
  "export_body d s =
     (case d of
        Unwritable e \<Rightarrow> Inl (OSError e, Untouched)
      | Writable \<Rightarrow>
          (case json_dump (packets s) of
             Inl e \<Rightarrow> Inl (e, Truncated)
           | Inr doc \<Rightarrow> Inr doc))"

text \<open>
  \<^verbatim>\<open>export_packets\<close> returns its Boolean; the model also returns the session (which
  no statement of the method assigns to) and what happened to the file.
\<close>

definition export_packets :: "dest \<Rightarrow> sniffer \<Rightarrow> bool \<times> sniffer \<times> file_effect" where
  "export_packets d s =
     (case export_body d s of
        Inr doc \<Rightarrow> (True, s, Complete doc)
      | Inl (e, eff) \<Rightarrow> (False, s, eff))"

section \<open>The demonstration sniffer\<close>

text \<open>
  \<^verbatim>\<open>DemoNetworkSniffer\<close> repeats \<^verbatim>\<open>get_packet_stats\<close>,
  \<^verbatim>\<open>get_recent_packets\<close>, \<^verbatim>\<open>clear_packets\<close>, \<^verbatim>\<open>stop_capture\<close> and
  \<^verbatim>\<open>export_packets\<close> word for word; the definitions above are theirs too. Its
  packets come from \<^verbatim>\<open>generate_demo_packet\<close>, whose random draws are the fields
  of a \<open>draw\<close>.
\<close>

record draw =
  clock :: string
  protocol_choice :: nat
  src_host :: nat
  dst_host :: nat
  src_port_draw :: int
  dst_port_draw :: int
  length_draw :: nat
  flag_choice :: nat

fun str_nat :: "nat \<Rightarrow> string" where
  "str_nat n = (if n < 10 then [hex_digit n] else str_nat (n div 10) @ [hex_digit (n mod 10)])"

definition port_or_na :: "int option \<Rightarrow> string" where
  "port_or_na p = (case p of None \<Rightarrow> ''N/A'' | Some n \<Rightarrow> if n = 0 then ''N/A'' else str_nat (nat n))"

definition generate_demo_packet :: "draw \<Rightarrow> packet_info" where
  "generate_demo_packet r =
     (let protocols = [''TCP'', ''UDP'', ''ICMP'', ''HTTP'', ''HTTPS'', ''DNS''];
          proto = protocols ! (protocol_choice r mod 6);
          sip = ''192.168.1.'' @ str_nat (src_host r);
          dip = ''10.0.0.'' @ str_nat (dst_host r);
          sp = (if proto \<in> set [''TCP'', ''UDP''] then Some (src_port_draw r) else None);
          dp = (if proto \<in> set [''TCP'', ''UDP''] then Some (dst_port_draw r) else None)
      in \<lparr>timestamp = clock r, length_field = length_draw r, protocol = PyStr proto,
           src_ip = PyStr sip, dst_ip = PyStr dip, src_port = sp, dst_port = dp,
           flags = (if proto = ''TCP''
                    then Some (PyStr ([''SYN'', ''ACK'', ''FIN'', ''RST''] ! (flag_choice r mod 4)))
                    else None),
           payload = None,
           summary = proto @ '' '' @ sip @ '':'' @ port_or_na sp @ '' -> '' @ dip @ '':'' @ port_or_na dp,
           icmp_type = None, icmp_code = None, src_mac = None, dst_mac = None\<rparr>)"

definition demo_packet_callback :: "sniffer \<Rightarrow> draw \<Rightarrow> sniffer" where
  "demo_packet_callback s r =
     (if \<not> is_capturing s then s
      else
        let info = generate_demo_packet r;
            s1 = s\<lparr>packets := packets s @ [info]\<rparr>;
            s2 = s1\<lparr>packet_queue := packet_queue s1 @ [info]\<rparr>;
            s3 = s2\<lparr>packet_count := packet_count s2 + 1\<rparr>
        in if length (packets s3) > 1000 then s3\<lparr>packets := tl (packets s3)\<rparr> else s3)"

definition demo_start_capture :: "sniffer \<Rightarrow> string option \<Rightarrow> string \<Rightarrow> bool \<times> sniffer" where
  "demo_start_capture s iface fstr =
     (if is_capturing s then (False, s)
      else
        let name = (case iface of
                      None \<Rightarrow> ''Demo Interface''
                    | Some i \<Rightarrow> if i = [] then ''Demo Interface'' else i)
        in (True, s\<lparr>interface := Some name, filter_str := fstr, is_capturing := True,
                     packet_count := 0, capture_thread := Some (Some name, fstr)\<rparr>))"

section \<open>Example inputs\<close>

definition stamp :: string where
  "stamp = ''2024-01-01T00:00:00''"

definition tcp_frame :: frame where
  "tcp_frame = \<lparr>frame_len = 174,
     frame_summary = ''Ether / IP / TCP 192.168.1.10:51000 > 10.0.0.5:http S / Raw'',
     ip = Some (IP ''192.168.1.10'' ''10.0.0.5'' 6), tcp = Some (TCP 51000 80 2), udp = None,
     icmp = None, arp = None, ether = Some (Ether ''00:1a:2b:3c:4d:5e'' ''00:1a:2b:3c:4d:5f''),
     raw = Some [71, 69, 84]\<rparr>"

definition gre_frame :: frame where
  "gre_frame = \<lparr>frame_len = 60, frame_summary = ''Ether / IP / GRE'',
     ip = Some (IP ''192.168.1.10'' ''10.0.0.5'' 47), tcp = None, udp = None,
     icmp = None, arp = None, ether = Some (Ether ''00:1a:2b:3c:4d:5e'' ''00:1a:2b:3c:4d:5f''),
     raw = None\<rparr>"

definition arp_frame :: frame where
  "arp_frame = \<lparr>frame_len = 42, frame_summary = ''Ether / ARP who has 10.0.0.1 says 10.0.0.2'',
     ip = None, tcp = None, udp = None, icmp = None,
     arp = Some (ARP (PyStr ''10.0.0.2'') (PyStr ''10.0.0.1'') (PyStr ''00:1a:2b:3c:4d:5e'')
       (PyStr ''00:00:00:00:00:00'')),
     ether = Some (Ether ''00:1a:2b:3c:4d:5e'' ''ff:ff:ff:ff:ff:ff''), raw = None\<rparr>"

text \<open>The \<open>n\<close>-th of a run of distinguishable frames, delivered at clock reading \<open>n\<close>.\<close>

definition mk_frame :: "nat \<Rightarrow> string \<times> frame" where
  "mk_frame n = (str_nat n, \<lparr>frame_len = n, frame_summary = ''Raw'', ip = None, tcp = None,
     udp = None, icmp = None, arp = None, ether = None, raw = None\<rparr>)"

definition tcp_draw :: draw where
  "tcp_draw = \<lparr>clock = stamp, protocol_choice = 0, src_host = 17, dst_host = 5,
     src_port_draw = 51000, dst_port_draw = 80, length_draw = 120, flag_choice = 0\<rparr>"

text \<open>A session on which \<^verbatim>\<open>start_capture('eth0', 'tcp')\<close> has just succeeded.\<close>

definition capturing :: sniffer where
  "capturing = snd (start_capture init (Some ''eth0'') ''tcp'')"

text \<open>The records \<^verbatim>\<open>analyze_packet\<close> makes of a run of deliveries.\<close>

definition analyzed :: "(string \<times> frame) list \<Rightarrow> packet_info list" where
  "analyzed fs = map (\<lambda>(now, packet). analyze_packet now packet) fs"

section \<open>What the statistics are measured against\<close>

text \<open>
  The position at which a key is first seen in a sequence of observations (the length of
  the sequence if it never is), and the frequency dictionary that counting a sequence of
  keys from the empty dictionary builds.
\<close>

fun first_index :: "'a list \<Rightarrow> 'a \<Rightarrow> nat" where
  "first_index [] x = 0"
| "first_index (y # ys) x = (if y = x then 0 else Suc (first_index ys x))"

definition tally :: "'k list \<Rightarrow> ('k \<times> nat) list" where
  "tally ks = fold (\<lambda>k d. bump d k) ks []"



text \<open>
  Key \<open>a\<close> ranks before key \<open>b\<close>: it was observed more often, or equally often
  and first seen earlier.
\<close>

definition outranks :: "'k list \<Rightarrow> 'k \<Rightarrow> 'k \<Rightarrow> bool" where
  "outranks obs a b \<longleftrightarrow>
     count_list obs b < count_list obs a \<or>
     (count_list obs a = count_list obs b \<and> first_index obs a < first_index obs b)"

text \<open>
  The property asked of a top list \<open>es\<close> over the observations \<open>obs\<close>. It has
  ten entries, or as many as there are distinct observed keys if these are fewer. Every
  entry is an observed key with the number of times it was observed. Counts descend, and
  among entries of equal count the key seen first comes first. Every observed key that is
  left out ranks after every entry. Together these fix the list: it is the first ten of
  the observed keys in rank order.
\<close>

definition ranked :: "'k list \<Rightarrow> ('k \<times> nat) list \<Rightarrow> bool" where
  "ranked obs es \<longleftrightarrow>
     length es \<le> 10 \<and>
     length es = min 10 (card (set obs)) \<and>
     list_all (\<lambda>(k, c). k \<in> set obs \<and> c = count_list obs k) es \<and>
     sorted_wrt (\<lambda>a b. snd b \<le> snd a) es \<and>
     sorted_wrt (\<lambda>a b. snd a = snd b \<longrightarrow> first_index obs (fst a) < first_index obs (fst b)) es \<and>
     (\<forall>k \<in> set obs. k \<in> fst ` set es \<or> (\<forall>e \<in> set es. outranks obs (fst e) k))"

text \<open>A capture that has seen one TCP frame and one ARP request.\<close>

definition two_packets :: sniffer where
  "two_packets = deliver capturing [(stamp, tcp_frame), (stamp, arp_frame)]"



text \<open>
  An ARP frame whose protocol type is not IPv4: scapy gives its protocol addresses as
  byte strings.
\<close>

definition arp_bytes_frame :: frame where
  "arp_bytes_frame = \<lparr>frame_len = 42, frame_summary = ''Ether / ARP who has ... says ...'',
     ip = None, tcp = None, udp = None, icmp = None,
     arp = Some (ARP (PyBytes [10, 0, 0, 2]) (PyBytes [10, 0, 0, 1])
       (PyStr ''00:1a:2b:3c:4d:5e'') (PyStr ''00:00:00:00:00:00'')),
     ether = Some (Ether ''00:1a:2b:3c:4d:5e'' ''ff:ff:ff:ff:ff:ff''), raw = None\<rparr>"



section \<open>The bounded history\<close>

lemma packet_callback_length:
  "length (packets s) \<le> 1000 \<Longrightarrow> length (packets (packet_callback s now packet)) \<le> 1000"
  by (simp add: packet_callback_def Let_def)

lemma packet_callback_capturing [simp]:
  "is_capturing (packet_callback s now packet) = is_capturing s"
  by (simp add: packet_callback_def Let_def)

lemma packet_callback_packets:
  assumes "is_capturing s" and "length (packets s) \<le> 1000"
  shows "packets (packet_callback s now packet) =
           drop (Suc (length (packets s)) - 1000) (packets s @ [analyze_packet now packet])"
proof (cases "length (packets s) = 1000")
  case True
  then have "packets s \<noteq> []" by auto
  with True assms(1) show ?thesis
    by (simp add: packet_callback_def Let_def drop_Suc)
next
  case False
  with assms show ?thesis
    by (simp add: packet_callback_def Let_def)
qed

lemma deliver_length:
  "length (packets s) \<le> 1000 \<Longrightarrow> length (packets (deliver s fs)) \<le> 1000"
  by (induction s fs rule: deliver.induct) (simp_all add: packet_callback_length)

lemma drop_drop_snoc:
  "length xs \<le> 1000 \<Longrightarrow>
   drop (length (drop (Suc (length xs) - 1000) (xs @ [a]) @ ys) - 1000)
        (drop (Suc (length xs) - 1000) (xs @ [a]) @ ys) =
   drop (length (xs @ a # ys) - 1000) (xs @ a # ys)"
  by (cases "length xs = 1000") (auto simp: drop_Suc)

lemma deliver_packets:
  "is_capturing s \<Longrightarrow> length (packets s) \<le> 1000 \<Longrightarrow>
   packets (deliver s fs) =
     drop (length (packets s @ analyzed fs) - 1000) (packets s @ analyzed fs)"
proof (induction s fs rule: deliver.induct)
  case (1 s)
  then show ?case by (simp add: analyzed_def)
next
  case (2 s now packet rest)
  have "packets (deliver (packet_callback s now packet) rest) =
        drop (length (packets (packet_callback s now packet) @ analyzed rest) - 1000)
             (packets (packet_callback s now packet) @ analyzed rest)"
    using 2 by (simp add: packet_callback_length)
  also have "\<dots> = drop (length (packets s @ analyze_packet now packet # analyzed rest) - 1000)
                     (packets s @ analyze_packet now packet # analyzed rest)"
    using 2(2,3) by (simp only: packet_callback_packets drop_drop_snoc)
  finally show ?case by (simp add: analyzed_def)
qed

lemma capturing_facts:
  "length (packets capturing) \<le> 1000" "is_capturing capturing" "packets capturing = []"
  by (simp_all add: capturing_def start_capture_def init_def)

text \<open>
  Claim C1. Starting from a history of at most 1000 records, any run of deliveries to
  the packet callback leaves at most 1000 records in the history. While the session is
  capturing, the history after the run is the last 1000 of the old records followed by
  the newly analysed ones, in order; once more than 1000 frames have been delivered it is
  exactly the records of the last 1000 frames; and a single callback on a full history
  drops the one oldest record and appends the new one at the end.
\<close>

theorem history_bounded_keeps_last:
  assumes "length (packets s) \<le> 1000"
  shows "length (packets (deliver s fs)) \<le> 1000 \<and>
         (is_capturing s \<longrightarrow>
            packets (deliver s fs) =
              drop (length (packets s @ analyzed fs) - 1000) (packets s @ analyzed fs) \<and>
            (1000 < length fs \<longrightarrow>
               packets (deliver s fs) = analyzed (drop (length fs - 1000) fs)) \<and>
            packets (packet_callback s now packet) =
              (if length (packets s) = 1000 then tl (packets s) else packets s) @
              [analyze_packet now packet])"
proof (intro conjI impI)
  show "length (packets (deliver s fs)) \<le> 1000"
    using assms by (rule deliver_length)
next
  assume "is_capturing s"
  then show "packets (deliver s fs) =
      drop (length (packets s @ analyzed fs) - 1000) (packets s @ analyzed fs)"
    using assms by (rule deliver_packets)
next
  assume c: "is_capturing s" and l: "1000 < length fs"
  have "packets (deliver s fs) =
      drop (length (packets s @ analyzed fs) - 1000) (packets s @ analyzed fs)"
    using c assms by (rule deliver_packets)
  also have "\<dots> = drop (length fs - 1000) (analyzed fs)"
    using l by (simp add: analyzed_def)
  finally show "packets (deliver s fs) = analyzed (drop (length fs - 1000) fs)"
    by (simp add: analyzed_def drop_map)
next
  assume c: "is_capturing s"
  show "packets (packet_callback s now packet) =
      (if length (packets s) = 1000 then tl (packets s) else packets s) @
      [analyze_packet now packet]"
  proof (cases "length (packets s) = 1000")
    case True
    then have "packets s \<noteq> []" by auto
    with c True show ?thesis by (simp add: packet_callback_def Let_def)
  next
    case False
    with c assms show ?thesis by (simp add: packet_callback_def Let_def)
  qed
qed

text \<open>The scenario of 1005 deliveries: 1000 records remain, the first five are gone.\<close>

theorem history_bounded_keeps_last_witness:
  "length (packets capturing) \<le> 1000 \<and> is_capturing capturing \<and>
   1000 < length (map mk_frame [0..<1005]) \<and>
   length (packets (deliver capturing (map mk_frame [0..<1005]))) \<le> 1000 \<and>
   packets (deliver capturing (map mk_frame [0..<1005])) = analyzed (map mk_frame [5..<1005])"
proof -
  have l: "1000 < length (map mk_frame [0..<1005])" by simp
  have d: "drop (length (map mk_frame [0..<1005]) - 1000) (map mk_frame [0..<1005]) =
      map mk_frame [5..<1005]"
    by (simp add: drop_map del: upt_rec_numeral)
  note t = history_bounded_keeps_last
    [OF capturing_facts(1), of "map mk_frame [0..<1005]" stamp tcp_frame]
  from t have a: "length (packets (deliver capturing (map mk_frame [0..<1005]))) \<le> 1000"
    by (rule conjunct1)
  from t capturing_facts(2) l
  have "packets (deliver capturing (map mk_frame [0..<1005])) =
      analyzed (drop (length (map mk_frame [0..<1005]) - 1000) (map mk_frame [0..<1005]))"
    by blast
  then have b: "packets (deliver capturing (map mk_frame [0..<1005])) =
      analyzed (map mk_frame [5..<1005])"
    by (simp only: d)
  from capturing_facts(1,2) l a b show ?thesis by (intro conjI)
qed

section \<open>Recent packets\<close>

text \<open>
  What the slice \<^verbatim>\<open>self.packets[-count:]\<close> gives for every \<open>count\<close>: for a
  positive one the last \<open>min count size\<close> records, for zero the whole history, and
  for a negative one the history without its first \<open>- count\<close> records.
\<close>

lemma get_recent_packets_eq:
  "get_recent_packets s n =
     (if 0 < n then drop (length (packets s) - nat n) (packets s)
      else drop (nat (- n)) (packets s))"
  by (auto simp: get_recent_packets_def slice_from_def Let_def max_def min_def nat_diff_distrib')

lemma get_recent_packets_positive:
  "0 < n \<Longrightarrow> length (get_recent_packets s n) = min (nat n) (length (packets s)) \<and>
     (\<exists>older. packets s = older @ get_recent_packets s n)"
  by (auto simp: get_recent_packets_eq
      intro: exI [of _ "take (length (packets s) - nat n) (packets s)"])

text \<open>
  Claim C2, at \<open>count = 0\<close> on a history of two records (the request
  \<^verbatim>\<open>/api/packets?count=0\<close>): the code returns both records, where the claim
  asks for the empty sequence.
\<close>

theorem get_recent_packets_zero_returns_all:
  "get_recent_packets (deliver capturing [(stamp, tcp_frame), (stamp, arp_frame)]) 0 =
     [analyze_packet stamp tcp_frame, analyze_packet stamp arp_frame]"
  by (simp add: get_recent_packets_def slice_from_def capturing_def start_capture_def init_def
      packet_callback_def Let_def)

section \<open>Statistics of an empty history\<close>

text \<open>
  Claim C3 as stated fails: on the fresh session \<^verbatim>\<open>get_packet_stats\<close> returns the
  empty dictionary, which has no \<^verbatim>\<open>total_packets\<close> entry and differs from the
  dictionary of a zero total and three empty maps.
\<close>

theorem empty_stats_has_no_fields:
  "get_packet_stats init = [] \<and>
   map_of (get_packet_stats init) ''total_packets'' = None \<and>
   get_packet_stats init \<noteq>
     [(''total_packets'', Count 0), (''protocols'', ProtocolCounts []),
      (''top_ips'', AddressCounts []), (''top_ports'', PortCounts [])]"
  by (simp add: get_packet_stats_def init_def)

text \<open>
  Claim C3, amended. When the history is empty, \<^verbatim>\<open>get_packet_stats\<close> returns the
  empty dictionary; being a total function of the session, it does not raise.
\<close>

theorem empty_history_stats_empty_dict:
  "packets s = [] \<Longrightarrow> get_packet_stats s = []"
  by (simp add: get_packet_stats_def)

theorem empty_history_stats_empty_dict_witness:
  "packets init = [] \<and> get_packet_stats init = []"
  using empty_history_stats_empty_dict [of init] by (simp add: init_def)

section \<open>The top lists\<close>

subsection \<open>First positions\<close>

lemma first_index_less: "x \<in> set xs \<Longrightarrow> first_index xs x < length xs"
  by (induction xs) auto

lemma first_index_notin: "x \<notin> set xs \<Longrightarrow> first_index xs x = length xs"
  by (induction xs) auto

lemma first_index_append:
  "first_index (xs @ ys) x =
     (if x \<in> set xs then first_index xs x else length xs + first_index ys x)"
  by (induction xs) auto

lemma first_index_nth: "distinct xs \<Longrightarrow> i < length xs \<Longrightarrow> first_index xs (xs ! i) = i"
  by (induction xs arbitrary: i) (auto simp: nth_Cons split: nat.splits)

lemma first_index_filter:
  "P x \<Longrightarrow> P y \<Longrightarrow>
   first_index (filter P xs) x < first_index (filter P xs) y \<longleftrightarrow>
   first_index xs x < first_index xs y"
  by (induction xs) auto

lemma first_index_map:
  "inj_on f (set xs) \<Longrightarrow> a \<in> set xs \<Longrightarrow> first_index (map f xs) (f a) = first_index xs a"
  by (induction xs) auto

subsection \<open>Dictionaries\<close>

lemma keys_dict_set_old: "k \<in> fst ` set d \<Longrightarrow> map fst (dict_set d k v) = map fst d"
  by (induction d) force+

lemma keys_dict_set_new: "k \<notin> fst ` set d \<Longrightarrow> map fst (dict_set d k v) = map fst d @ [k]"
  by (induction d) auto

lemma keys_dict_set:
  "map fst (dict_set d k v) = (if k \<in> fst ` set d then map fst d else map fst d @ [k])"
  by (simp add: keys_dict_set_old keys_dict_set_new)

lemma map_of_dict_set: "map_of (dict_set d k v) = (map_of d)(k \<mapsto> v)"
  by (induction d) auto

lemma dict_set_fresh: "k \<notin> fst ` set d \<Longrightarrow> dict_set d k v = d @ [(k, v)]"
  by (induction d) auto

lemma dict_of_snoc: "dict_of (xs @ [(k, v)]) = dict_set (dict_of xs) k v"
  by (simp add: dict_of_def)

lemma dict_of_distinct: "distinct (map fst xs) \<Longrightarrow> dict_of xs = xs"
proof (induction xs rule: rev_induct)
  case Nil
  show ?case by (simp add: dict_of_def)
next
  case (snoc x xs)
  obtain k v where x: "x = (k, v)" by (cases x)
  from snoc have "dict_of xs = xs" and "k \<notin> fst ` set xs" by (auto simp: x)
  then show ?case by (simp add: x dict_of_snoc dict_set_fresh)
qed

subsection \<open>Frequency dictionaries\<close>

lemma tally_snoc: "tally (ks @ [k]) = bump (tally ks) k"
  by (simp add: tally_def)

lemma keys_tally_snoc:
  "map fst (tally (ks @ [k])) =
     (if k \<in> set (map fst (tally ks)) then map fst (tally ks) else map fst (tally ks) @ [k])"
  by (simp add: tally_snoc bump_def keys_dict_set)

lemma set_keys_tally: "set (map fst (tally ks)) = set ks"
proof (induction ks rule: rev_induct)
  case Nil
  show ?case by (simp add: tally_def)
next
  case (snoc k ks)
  then show ?case by (auto simp: keys_tally_snoc simp del: set_map)
qed

lemma distinct_keys_tally: "distinct (map fst (tally ks))"
proof (induction ks rule: rev_induct)
  case Nil
  show ?case by (simp add: tally_def)
next
  case (snoc k ks)
  then show ?case by (simp add: keys_tally_snoc del: set_map)
qed

lemma map_of_tally:
  "map_of (tally ks) k = (if k \<in> set ks then Some (count_list ks k) else None)"
proof (induction ks rule: rev_induct)
  case Nil
  show ?case by (simp add: tally_def)
next
  case (snoc x ks)
  then show ?case
    by (auto simp: tally_snoc bump_def map_of_dict_set dict_get_def)
qed

lemma tally_entry:
  assumes "(k, c) \<in> set (tally ks)"
  shows "k \<in> set ks \<and> c = count_list ks k"
proof -
  from assms have "map_of (tally ks) k = Some c"
    using distinct_keys_tally [of ks] by simp
  then show ?thesis by (simp add: map_of_tally split: if_splits)
qed

lemma first_index_keys_tally:
  "a \<in> set ks \<Longrightarrow>
   first_index (map fst (tally ks)) a < first_index (map fst (tally ks)) b \<Longrightarrow>
   first_index ks a < first_index ks b"
proof (induction ks rule: rev_induct)
  case Nil
  then show ?case by simp
next
  case (snoc k ks)
  let ?K = "map fst (tally ks)"
  have K: "set ?K = set ks" by (rule set_keys_tally)
  show ?case
  proof (cases "k \<in> set ks")
    case True
    with snoc.prems K have a: "a \<in> set ks"
      and lt: "first_index ?K a < first_index ?K b"
      by (auto simp: keys_tally_snoc simp del: set_map)
    from snoc.IH [OF a lt] have "first_index ks a < first_index ks b" .
    moreover from a have "first_index ks a < length ks" by (rule first_index_less)
    ultimately show ?thesis using a True
      by (auto simp: first_index_append)
  next
    case False
    show ?thesis
    proof (cases "a \<in> set ks")
      case a: True
      then have al: "first_index ks a < length ks" by (rule first_index_less)
      show ?thesis
      proof (cases "b \<in> set ks")
        case True
        with snoc.prems a False K have "first_index ?K a < first_index ?K b"
          by (simp add: keys_tally_snoc first_index_append del: set_map)
        from snoc.IH [OF a this] a True show ?thesis
          by (simp add: first_index_append)
      next
        case False
        with a al show ?thesis by (simp add: first_index_append)
      qed
    next
      case a: False
      with snoc.prems(1) have ak: "a = k" by simp
      have bk: "b \<noteq> k" using snoc.prems(2) by (auto simp: ak)
      have "b \<notin> set ks"
      proof
        assume b: "b \<in> set ks"
        then have "b \<in> set ?K" using K by simp
        then have "first_index ?K b < length ?K" by (rule first_index_less)
        moreover have "first_index ?K a = length ?K"
          using a K by (simp add: first_index_notin del: set_map)
        ultimately show False
          using snoc.prems(2) False K b a
          by (simp add: keys_tally_snoc first_index_append ak del: set_map)
      qed
      with ak a bk show ?thesis by (simp add: first_index_append)
    qed
  qed
qed

lemma tally_mem: "k \<in> set ks \<Longrightarrow> (k, count_list ks k) \<in> set (tally ks)"
  by (rule map_of_SomeD) (simp add: map_of_tally)

lemma length_tally: "length (tally ks) = card (set ks)"
proof -
  have "card (set (map fst (tally ks))) = length (map fst (tally ks))"
    by (rule distinct_card) (rule distinct_keys_tally)
  then show ?thesis by (simp only: set_keys_tally length_map)
qed

subsection \<open>Sorting and truncation\<close>

lemma sorted_reverse_desc: "sorted_wrt (\<lambda>a b. snd b \<le> snd a) (sorted_reverse d)"
proof -
  have "sorted (map (\<lambda>x. - int (snd x)) (sorted_reverse d))"
    by (simp add: sorted_reverse_def)
  then show ?thesis by (simp add: sorted_map)
qed

lemma set_sorted_reverse: "set (sorted_reverse d) = set d"
  by (simp add: sorted_reverse_def)

lemma distinct_keys_sorted_reverse:
  "distinct (map fst d) \<Longrightarrow> distinct (map fst (sorted_reverse d))"
  by (simp add: distinct_map sorted_reverse_def)

lemma sorted_reverse_ties:
  assumes d: "distinct (map fst d)"
    and ij: "i < j" "j < length (sorted_reverse d)"
    and eq: "snd (sorted_reverse d ! i) = snd (sorted_reverse d ! j)"
  shows "first_index (map fst d) (fst (sorted_reverse d ! i)) <
         first_index (map fst d) (fst (sorted_reverse d ! j))"
proof -
  let ?S = "sorted_reverse d"
  let ?f = "\<lambda>x :: 'a \<times> nat. - int (snd x)"
  let ?P = "\<lambda>y. ?f y = ?f (?S ! i)"
  from d have dd: "distinct d" and inj: "inj_on fst (set d)"
    by (simp_all add: distinct_map)
  then have dS: "distinct ?S" by (simp add: sorted_reverse_def)
  have Pi: "?P (?S ! i)" by simp
  have Pj: "?P (?S ! j)" using eq by simp
  have mem: "?S ! i \<in> set d" "?S ! j \<in> set d"
    using ij nth_mem [of i ?S] nth_mem [of j ?S] by (simp_all add: set_sorted_reverse)
  have "first_index ?S (?S ! i) < first_index ?S (?S ! j)"
    using dS ij by (simp add: first_index_nth)
  then have "first_index (filter ?P ?S) (?S ! i) < first_index (filter ?P ?S) (?S ! j)"
    using first_index_filter [of ?P "?S ! i" "?S ! j" ?S] Pi Pj by blast
  moreover have "filter ?P ?S = filter ?P d"
    unfolding sorted_reverse_def by (rule sort_key_stable)
  ultimately have "first_index (filter ?P d) (?S ! i) < first_index (filter ?P d) (?S ! j)"
    by simp
  then have "first_index d (?S ! i) < first_index d (?S ! j)"
    using first_index_filter [of ?P "?S ! i" "?S ! j" d] Pi Pj by blast
  then show ?thesis
    using inj mem by (simp add: first_index_map)
qed

lemma top10_eq: "distinct (map fst d) \<Longrightarrow> top10 d = take 10 (sorted_reverse d)"
  unfolding top10_def
  by (rule dict_of_distinct) (simp add: take_map [symmetric] distinct_keys_sorted_reverse)

lemma sorted_reverse_outranks:
  "sorted_wrt (\<lambda>a b. outranks obs (fst a) (fst b)) (sorted_reverse (tally obs))"
proof (unfold sorted_wrt_iff_nth_less, intro allI impI)
  fix i j
  let ?S = "sorted_reverse (tally obs)"
  assume ij: "i < j" "j < length ?S"
  have "?S ! i \<in> set (tally obs)" and "?S ! j \<in> set (tally obs)"
    using ij nth_mem [of i ?S] nth_mem [of j ?S] by (simp_all add: set_sorted_reverse)
  then have ci: "fst (?S ! i) \<in> set obs \<and> snd (?S ! i) = count_list obs (fst (?S ! i))"
    and cj: "fst (?S ! j) \<in> set obs \<and> snd (?S ! j) = count_list obs (fst (?S ! j))"
    using tally_entry [of "fst (?S ! i)" "snd (?S ! i)" obs]
      tally_entry [of "fst (?S ! j)" "snd (?S ! j)" obs] by simp_all
  have le: "snd (?S ! j) \<le> snd (?S ! i)"
    using sorted_wrt_nth_less [OF sorted_reverse_desc ij] .
  show "outranks obs (fst (?S ! i)) (fst (?S ! j))"
  proof (cases "snd (?S ! i) = snd (?S ! j)")
    case True
    have "first_index (map fst (tally obs)) (fst (?S ! i)) <
          first_index (map fst (tally obs)) (fst (?S ! j))"
      using distinct_keys_tally ij True by (rule sorted_reverse_ties)
    with ci have "first_index obs (fst (?S ! i)) < first_index obs (fst (?S ! j))"
      by (blast intro: first_index_keys_tally)
    with True ci cj show ?thesis by (simp add: outranks_def)
  next
    case False
    with le ci cj show ?thesis by (simp add: outranks_def)
  qed
qed

lemma top10_left_out:
  assumes k: "k \<in> set obs"
    and out: "k \<notin> fst ` set (take 10 (sorted_reverse (tally obs)))"
    and e: "e \<in> set (take 10 (sorted_reverse (tally obs)))"
  shows "outranks obs (fst e) k"
proof -
  let ?S = "sorted_reverse (tally obs)"
  let ?P = "\<lambda>a b. outranks obs (fst a) (fst b)"
  have "(k, count_list obs k) \<in> set ?S"
    using k by (simp add: set_sorted_reverse tally_mem)
  moreover have "set ?S = set (take 10 ?S) \<union> set (drop 10 ?S)"
    by (metis append_take_drop_id set_append)
  moreover have "(k, count_list obs k) \<notin> set (take 10 ?S)"
    using out by force
  ultimately have d: "(k, count_list obs k) \<in> set (drop 10 ?S)" by blast
  have "sorted_wrt ?P (take 10 ?S @ drop 10 ?S)"
    using sorted_reverse_outranks [of obs] by simp
  then have "\<forall>x \<in> set (take 10 ?S). \<forall>y \<in> set (drop 10 ?S). ?P x y"
    unfolding sorted_wrt_append by (elim conjE)
  with e d have "?P e (k, count_list obs k)" by blast
  then show ?thesis by simp
qed

lemma ranked_top10_tally: "ranked obs (top10 (tally obs))"
proof -
  let ?d = "tally obs"
  let ?S = "sorted_reverse ?d"
  have d: "distinct (map fst ?d)" by (rule distinct_keys_tally)
  have t: "top10 ?d = take 10 ?S" using d by (rule top10_eq)
  have "length (take 10 ?S) \<le> 10" by simp
  moreover have "length (take 10 ?S) = min 10 (card (set obs))"
    by (simp add: sorted_reverse_def length_tally min.commute)
  moreover have "list_all (\<lambda>(k, c). k \<in> set obs \<and> c = count_list obs k) (take 10 ?S)"
  proof -
    have "\<forall>e \<in> set (take 10 ?S). (case e of (k, c) \<Rightarrow> k \<in> set obs \<and> c = count_list obs k)"
    proof
      fix e assume "e \<in> set (take 10 ?S)"
      then have "e \<in> set ?d" using set_take_subset [of 10 ?S] by (auto simp: set_sorted_reverse)
      moreover obtain k c where e: "e = (k, c)" by (cases e)
      ultimately have "k \<in> set obs \<and> c = count_list obs k"
        using tally_entry [of k c obs] by simp
      then show "case e of (k, c) \<Rightarrow> k \<in> set obs \<and> c = count_list obs k"
        by (simp add: e)
    qed
    then show ?thesis by (simp add: list_all_iff)
  qed
  moreover have "sorted_wrt (\<lambda>a b. snd b \<le> snd a) (take 10 ?S)"
    by (rule sorted_wrt_take) (rule sorted_reverse_desc)
  moreover have "sorted_wrt (\<lambda>a b. snd a = snd b \<longrightarrow>
      first_index obs (fst a) < first_index obs (fst b)) (take 10 ?S)"
  proof (rule sorted_wrt_take, unfold sorted_wrt_iff_nth_less, intro allI impI)
    fix i j
    assume ij: "i < j" "j < length ?S" and eq: "snd (?S ! i) = snd (?S ! j)"
    have "?S ! i \<in> set ?d"
      using ij nth_mem [of i ?S] by (simp add: set_sorted_reverse)
    then have "fst (?S ! i) \<in> set (map fst ?d)"
      by (simp only: set_map) (rule imageI)
    then have "fst (?S ! i) \<in> set obs" by (simp only: set_keys_tally)
    moreover have "first_index (map fst ?d) (fst (?S ! i)) < first_index (map fst ?d) (fst (?S ! j))"
      using d ij eq by (rule sorted_reverse_ties)
    ultimately show "first_index obs (fst (?S ! i)) < first_index obs (fst (?S ! j))"
      by (rule first_index_keys_tally)
  qed
  moreover have "\<forall>k \<in> set obs. k \<in> fst ` set (take 10 ?S) \<or>
      (\<forall>e \<in> set (take 10 ?S). outranks obs (fst e) k)"
    using top10_left_out [of _ obs] by blast
  ultimately show ?thesis by (simp add: ranked_def t)
qed

subsection \<open>The ranking fixes the list\<close>

text \<open>
  At most one list is \<open>ranked\<close> over given observations, so the property says which
  entries a top list holds and in which order: it is what the code computes.
\<close>

lemma ranked_keys: "ranked obs es \<Longrightarrow> fst ` set es \<subseteq> set obs"
  by (auto simp: ranked_def list_all_iff)

lemma nth_first_index: "a \<in> set xs \<Longrightarrow> xs ! first_index xs a = a"
  by (induction xs) auto

lemma first_index_inj:
  "a \<in> set xs \<Longrightarrow> b \<in> set xs \<Longrightarrow> first_index xs a = first_index xs b \<Longrightarrow> a = b"
  by (metis nth_first_index)

lemma outranks_asym: "outranks obs a b \<Longrightarrow> \<not> outranks obs b a"
  by (auto simp: outranks_def)

lemma sorted_wrt_asym_unique:
  assumes "\<And>a b. R a b \<Longrightarrow> \<not> R b a"
  shows "sorted_wrt R xs \<Longrightarrow> sorted_wrt R ys \<Longrightarrow> set xs = set ys \<Longrightarrow> xs = ys"
proof (induction xs arbitrary: ys)
  case Nil
  then show ?case by simp
next
  case (Cons x xs)
  then obtain y ys' where ys: "ys = y # ys'" by (cases ys) auto
  have irr: "\<not> R z z" for z using assms by blast
  from Cons.prems ys have x: "x = y \<or> R y x" and y: "y = x \<or> R x y"
    by (auto simp: set_eq_iff) 
  with assms have xy: "x = y" by blast
  from Cons.prems(1) irr have "x \<notin> set xs" by auto
  moreover from Cons.prems(2) ys irr have "y \<notin> set ys'" by auto
  ultimately have "set xs = set ys'" using Cons.prems(3) ys xy by auto
  with Cons.IH [of ys'] Cons.prems ys xy show ?case by simp
qed

lemma ranked_keys_sorted:
  assumes "ranked obs es"
  shows "sorted_wrt (outranks obs) (map fst es)"
proof -
  from assms have c: "\<forall>e \<in> set es. snd e = count_list obs (fst e)"
    and d: "sorted_wrt (\<lambda>a b. snd b \<le> snd a) es"
    and t: "sorted_wrt (\<lambda>a b. snd a = snd b \<longrightarrow>
              first_index obs (fst a) < first_index obs (fst b)) es"
    by (auto simp: ranked_def list_all_iff)
  have "sorted_wrt (\<lambda>a b. outranks obs (fst a) (fst b)) es"
    unfolding sorted_wrt_iff_nth_less
  proof (intro allI impI)
    fix i j assume ij: "i < j" "j < length es"
    then have "es ! i \<in> set es" "es ! j \<in> set es" by simp_all
    with c have ci: "snd (es ! i) = count_list obs (fst (es ! i))"
      and cj: "snd (es ! j) = count_list obs (fst (es ! j))" by blast+
    from sorted_wrt_nth_less [OF d ij] sorted_wrt_nth_less [OF t ij] ci cj
    show "outranks obs (fst (es ! i)) (fst (es ! j))"
      by (auto simp: outranks_def)
  qed
  then show ?thesis by (simp add: sorted_wrt_map)
qed

lemma sorted_wrt_irrefl_distinct:
  assumes "\<And>z. \<not> R z z"
  shows "sorted_wrt R xs \<Longrightarrow> distinct xs"
  using assms by (induction xs) auto

lemma ranked_keys_distinct: "ranked obs es \<Longrightarrow> distinct (map fst es)"
  using outranks_asym [of obs]
  by (blast intro: sorted_wrt_irrefl_distinct [of "outranks obs"] ranked_keys_sorted)

lemma ranked_left_out:
  "ranked obs es \<Longrightarrow> k \<in> set obs \<Longrightarrow> k \<notin> fst ` set es \<Longrightarrow> k' \<in> fst ` set es \<Longrightarrow>
   outranks obs k' k"
  by (auto simp: ranked_def)

lemma ranked_keys_subset:
  assumes a: "ranked obs es" and b: "ranked obs es'"
  shows "fst ` set es \<subseteq> fst ` set es'"
proof
  fix k assume k: "k \<in> fst ` set es"
  let ?A = "fst ` set es" and ?B = "fst ` set es'"
  show "k \<in> ?B"
  proof (rule ccontr)
    assume nk: "k \<notin> ?B"
    have "card ?A = length es" "card ?B = length es'"
      using distinct_card [OF ranked_keys_distinct [OF a]]
        distinct_card [OF ranked_keys_distinct [OF b]] by simp_all
    moreover have "length es = length es'" using a b by (simp add: ranked_def)
    ultimately have card: "card ?B = card ?A" by simp
    have "\<not> ?B \<subseteq> ?A"
    proof
      assume "?B \<subseteq> ?A"
      with card have "?B = ?A" by (intro card_subset_eq) simp_all
      with k nk show False by simp
    qed
    then obtain k' where k': "k' \<in> ?B" "k' \<notin> ?A" by blast
    have ko: "k \<in> set obs" using ranked_keys [OF a] k by blast
    have k'o: "k' \<in> set obs" using ranked_keys [OF b] k' by blast
    have "outranks obs k' k" using b ko nk k'(1) by (rule ranked_left_out)
    moreover have "outranks obs k k'" using a k'o k'(2) k by (rule ranked_left_out)
    ultimately show False using outranks_asym [of obs k' k] by simp
  qed
qed

lemma ranked_entries:
  assumes "ranked obs es"
  shows "es = map (\<lambda>k. (k, count_list obs k)) (map fst es)"
proof -
  have "map ((\<lambda>k. (k, count_list obs k)) \<circ> fst) es = es"
  proof (rule map_idI)
    fix e assume "e \<in> set es"
    with assms show "((\<lambda>k. (k, count_list obs k)) \<circ> fst) e = e"
      by (auto simp: ranked_def list_all_iff)
  qed
  then show ?thesis by simp
qed

lemma ranked_unique:
  assumes a: "ranked obs es" and b: "ranked obs es'"
  shows "es = es'"
proof -
  have "set (map fst es) = set (map fst es')"
    using ranked_keys_subset [OF a b] ranked_keys_subset [OF b a] by auto
  with ranked_keys_sorted [OF a] ranked_keys_sorted [OF b] outranks_asym [of obs]
  have "map fst es = map fst es'"
    by (blast intro: sorted_wrt_asym_unique [of "outranks obs"])
  with ranked_entries [OF a] ranked_entries [OF b] show ?thesis by simp
qed

lemma ranked_iff_top10: "ranked obs es \<longleftrightarrow> es = top10 (tally obs)"
  using ranked_unique [of obs es "top10 (tally obs)"] ranked_top10_tally [of obs] by blast

lemma ranked_rejects_empty: "\<not> ranked [PyStr ''10.0.0.2''] []"
  by (simp add: ranked_def)

subsection \<open>The counting loop\<close>













text \<open>Two more runs of the code.\<close>

lemma top10_example:
  "top10 (tally [''a'', ''b'', ''c'', ''b'', ''c'', ''d'']) =
     [(''b'', 2), (''c'', 2), (''a'', 1), (''d'', 1)]"
  by code_simp

lemma stats_example:
  "get_packet_stats two_packets =
     [(''total_packets'', Count 2),
      (''protocols'', ProtocolCounts [(PyStr ''TCP'', 1), (PyStr ''ARP'', 1)]),
      (''top_ips'', AddressCounts [(PyStr ''192.168.1.10'', 1), (PyStr ''10.0.0.2'', 1)]),
      (''top_ports'', PortCounts [(51000, 1)])]"
  by code_simp

section \<open>Starting a capture\<close>

text \<open>
  Claim C5 as stated fails: for an interface that cannot be opened,
  \<^verbatim>\<open>start_capture\<close> returns \<^verbatim>\<open>True\<close>, and after the capture thread has
  caught and printed the failure the session is still capturing.
\<close>

theorem start_capture_open_failure_reports_success:
  "fst (start_capture init (Some ''nosuch0'') []) = True \<and>
   is_capturing (fst (capture_packets (Fails_to_open ''No such device'')
     (snd (start_capture init (Some ''nosuch0'') [])))) = True"
  by (simp add: start_capture_def capture_packets_def init_def)

text \<open>
  Claim C5, amended. On an idle session \<^verbatim>\<open>start_capture\<close> returns \<^verbatim>\<open>True\<close>
  whatever the packet source will do; if the source then fails to open, the capture thread
  catches the failure and prints one \<^verbatim>\<open>Capture error\<close> line, changes nothing in the
  session, and the session stays capturing.
\<close>

theorem start_capture_ignores_open_failure:
  "\<not> is_capturing s \<Longrightarrow>
     fst (start_capture s iface fstr) = True \<and>
     capture_packets (Fails_to_open e) (snd (start_capture s iface fstr)) =
       (snd (start_capture s iface fstr), [''Capture error: '' @ e]) \<and>
     is_capturing (snd (start_capture s iface fstr))"
  by (simp add: start_capture_def capture_packets_def)

theorem start_capture_ignores_open_failure_witness:
  "\<not> is_capturing init \<and>
   fst (start_capture init (Some ''nosuch0'') []) = True \<and>
   capture_packets (Fails_to_open ''No such device'') (snd (start_capture init (Some ''nosuch0'') [])) =
     (snd (start_capture init (Some ''nosuch0'') []), [''Capture error: No such device'']) \<and>
   is_capturing (snd (start_capture init (Some ''nosuch0'') []))"
  using start_capture_ignores_open_failure [of init "Some ''nosuch0''" "[]" "''No such device''"]
  by (simp add: init_def)

text \<open>
  Claim C6. On a capturing session \<^verbatim>\<open>start_capture\<close> returns \<^verbatim>\<open>False\<close> (its
  only failure value, returned and not raised) and the session is unchanged in every
  field. On an idle session it returns \<^verbatim>\<open>True\<close> at once, records the interface and
  the filter, sets the packet count to 0 and marks the session capturing; the history is
  kept.
\<close>

theorem start_capture_outcomes:
  "(is_capturing s \<longrightarrow> start_capture s iface fstr = (False, s)) \<and>
   (\<not> is_capturing s \<longrightarrow>
      fst (start_capture s iface fstr) = True \<and>
      interface (snd (start_capture s iface fstr)) = iface \<and>
      filter_str (snd (start_capture s iface fstr)) = fstr \<and>
      packet_count (snd (start_capture s iface fstr)) = 0 \<and>
      is_capturing (snd (start_capture s iface fstr)) \<and>
      packets (snd (start_capture s iface fstr)) = packets s)"
  by (simp add: start_capture_def)

theorem start_capture_outcomes_witness:
  "is_capturing capturing \<and> \<not> is_capturing init \<and>
   start_capture capturing (Some ''wlan0'') ''udp'' = (False, capturing) \<and>
   interface capturing = Some ''eth0'' \<and> filter_str capturing = ''tcp'' \<and>
   fst (start_capture init (Some ''eth0'') ''tcp'') = True \<and>
   packet_count (snd (start_capture init (Some ''eth0'') ''tcp'')) = 0"
  using start_capture_outcomes [of capturing "Some ''wlan0''" "''udp''"]
    start_capture_outcomes [of init "Some ''eth0''" "''tcp''"]
  by (simp add: capturing_def init_def)

section \<open>Classification\<close>

text \<open>
  Claim C7 as stated fails: an IP frame that carries GRE (protocol number 47) and none of
  TCP, UDP, ICMP is stored with the number 47 as its protocol, which is none of the five
  tags.
\<close>

theorem analyze_packet_numeric_protocol:
  "protocol (analyze_packet stamp gre_frame) = PyInt 47 \<and>
   PyInt 47 \<notin> {PyStr ''TCP'', PyStr ''UDP'', PyStr ''ICMP'', PyStr ''ARP'', PyStr ''Unknown''}"
  by (simp add: analyze_packet_def raw_payload_def Let_def gre_frame_def)

text \<open>
  Claim C7, amended. The stored protocol is decided by the layers alone, first match
  first: in an IP frame TCP, then UDP, then ICMP, and otherwise the numeric protocol field
  of the IP header; without an IP layer ARP if present, and otherwise the tag Unknown.
  Ports play no part.
\<close>

theorem analyze_packet_protocol:
  "protocol (analyze_packet now packet) =
     (case ip packet of
        Some i \<Rightarrow>
          (if tcp packet \<noteq> None then PyStr ''TCP''
           else if udp packet \<noteq> None then PyStr ''UDP''
           else if icmp packet \<noteq> None then PyStr ''ICMP''
           else PyInt (proto i))
      | None \<Rightarrow> (if arp packet \<noteq> None then PyStr ''ARP'' else PyStr ''Unknown''))"
  by (simp add: analyze_packet_def raw_payload_def Let_def split: option.splits)

section \<open>Clearing and idle deliveries\<close>

text \<open>
  Claim C8. \<^verbatim>\<open>clear_packets\<close> has no precondition on the state; afterwards the
  history is empty, every request for recent packets returns the empty list, the packet
  count is 0, and the capturing flag, the interface and the filter are as before.
\<close>

theorem clear_packets_effect:
  "packets (clear_packets s) = [] \<and>
   (\<forall>n. get_recent_packets (clear_packets s) n = []) \<and>
   packet_count (clear_packets s) = 0 \<and>
   is_capturing (clear_packets s) = is_capturing s \<and>
   interface (clear_packets s) = interface s \<and>
   filter_str (clear_packets s) = filter_str s"
  by (simp add: clear_packets_def get_recent_packets_def)

lemma deliver_idle: "\<not> is_capturing s \<Longrightarrow> deliver s fs = s"
  by (induction s fs rule: deliver.induct) (simp_all add: packet_callback_def)

text \<open>
  Claim C9. While the capturing flag is false, the packet callback of either sniffer
  returns the session as it was: history, queue and packet count included. So does any run
  of deliveries, in particular after \<^verbatim>\<open>stop_capture\<close>.
\<close>

theorem packet_callback_idle_no_effect:
  "\<not> is_capturing s \<Longrightarrow>
     packet_callback s now packet = s \<and> demo_packet_callback s r = s \<and> deliver s fs = s \<and>
     deliver (snd (stop_capture s')) fs = snd (stop_capture s')"
  by (simp add: packet_callback_def demo_packet_callback_def deliver_idle stop_capture_def)

theorem packet_callback_idle_no_effect_witness:
  "\<not> is_capturing init \<and> packet_callback init stamp tcp_frame = init \<and>
   demo_packet_callback init tcp_draw = init \<and>
   deliver (snd (stop_capture capturing)) [(stamp, tcp_frame)] = snd (stop_capture capturing)"
  using packet_callback_idle_no_effect
    [of init stamp tcp_frame tcp_draw "[(stamp, tcp_frame)]" capturing]
  by (simp add: init_def)

section \<open>Export\<close>

lemma export_packets_session_unchanged: "fst (snd (export_packets d s)) = s"
  by (simp add: export_packets_def split: sum.splits prod.splits)

lemma export_packets_unwritable: "export_packets (Unwritable e) s = (False, s, Untouched)"
  by (simp add: export_packets_def export_body_def)

lemma export_packets_writable:
  "export_packets Writable s =
     (if list_all json_record_ok (packets s) then (True, s, Complete (packets s))
      else (False, s, Truncated))"
  by (simp add: export_packets_def export_body_def json_dump_def)

lemma generate_demo_packet_json_ok: "json_record_ok (generate_demo_packet r)"
  by (simp add: generate_demo_packet_def json_record_ok_def json_value_ok_def
      json_option_ok_def Let_def)

text \<open>A record with byte-string addresses stops the export in the same way.\<close>

lemma export_packets_bytes_record_fails:
  "export_packets Writable (deliver capturing [(stamp, arp_bytes_frame)]) =
     (False, deliver capturing [(stamp, arp_bytes_frame)], Truncated)"
  by (simp add: export_packets_def export_body_def json_dump_def json_record_ok_def
      json_value_ok_def json_option_ok_def capturing_def start_capture_def init_def
      packet_callback_def Let_def analyze_packet_def arp_bytes_frame_def)

text \<open>
  Claim C10, on the history of a real capture that holds one TCP record, with a
  destination that can be written: the flags of the record are scapy's flag object,
  \<^verbatim>\<open>json.dump\<close> raises on it, and \<^verbatim>\<open>export_packets\<close> returns
  \<^verbatim>\<open>False\<close> with a truncated file, where the claim asks for \<^verbatim>\<open>True\<close> and
  the complete history.
\<close>

theorem export_packets_tcp_record_fails:
  "export_packets Writable (deliver capturing [(stamp, tcp_frame)]) =
     (False, deliver capturing [(stamp, tcp_frame)], Truncated)"
  by (simp add: export_packets_def export_body_def json_dump_def json_record_ok_def
      json_value_ok_def json_option_ok_def capturing_def start_capture_def init_def packet_callback_def Let_def
      analyze_packet_def tcp_frame_def raw_payload_def)

end
